theory Spec2Isabelle
  imports Main
begin

section \<open>Data model of \<open>mldata/dataset.py\<close>\<close>

text \<open>
  The class \<open>Dataset\<close> is a client of a remote service. The embedding keeps the fields of
  the object that the access pipeline reads and writes, the jobs submitted to the content
  pool and a log of the remote requests issued. The remote service, the clock, the file
  system and the session constants are not part of the class: they are parameters
  (record \<open>env\<close>). The two worker pools are modelled sequentially: a job runs when it is
  submitted, and its outcome, a value or an exception, is what its future holds.
\<close>

type_synonym ident = string

text \<open>
  An element's metadata dictionary as the server returns it: the identifier (\<open>'_id'\<close>)
  and the remaining fields (title, description, tags, http_ref) kept as pairs.
\<close>

record meta =
  m_id :: ident
  m_fields :: "(string \<times> string) list"

text \<open>
  What \<open>int(key)\<close> makes of a key: a value, or one of the exceptions of the builtin.
\<close>

datatype int_outcome = IntValue int | IntValueError | IntTypeError | IntOverflowError

text \<open>
  The keys \<open>__getitem__\<close> may be given: an integer, a string, a slice whose three
  components may each be \<open>None\<close>, a boolean, \<open>None\<close>, or an object of any other type
  (a float, bytes, a tuple). Of such an object \<open>__getitem__\<close> uses nothing but its \<open>str\<close>
  and its \<open>int\<close>, which \<open>OtherKey\<close> carries: the float \<open>1.5\<close> is
  \<open>OtherKey ''1.5'' (IntValue 1)\<close>, the float \<open>nan\<close> is \<open>OtherKey ''nan'' IntValueError\<close>.
\<close>

datatype key =
    IntKey int
  | StrKey string
  | SliceKey "int option" "int option" "int option"
  | BoolKey bool
  | NoneKey
  | OtherKey string int_outcome

text \<open>
  Exceptions as values. \<open>NotFound k\<close> is \<open>KeyError("{} not found".format(k))\<close> of line 204,
  it carries the key that the message names; \<open>KeyTypeNotAllowed\<close> is the \<open>KeyError\<close> of
  line 197; \<open>ContentNotAFile\<close> is the \<open>Exception\<close> of line 109. \<open>RemoteFailure\<close> stands
  for whatever the API wrapper raises when a request fails (transport error, HTTP
  status), with the wrapper's message.
\<close>

datatype error =
    NotFound key
  | KeyTypeNotAllowed
  | IndexError
  | ValueError
  | TypeError
  | OverflowError
  | ZeroDivisionError
  | AttributeError
  | ContentNotAFile
  | RemoteFailure string

text \<open>The requests the class sends through the API wrapper, as they appear in the log.\<close>

datatype request =
    GetPage int               \<comment> \<open>\<open>GET datasets/{prefix}/elements?page=N\<close>\<close>
  | GetBundle "ident list"    \<comment> \<open>\<open>datasets/{prefix}/elements/bundle\<close> with \<open>{'elements': ids}\<close>\<close>
  | GetElement string         \<comment> \<open>\<open>GET datasets/{prefix}/elements/{key}\<close>\<close>
  | DeleteElement string      \<comment> \<open>\<open>DELETE datasets/{prefix}/elements/{key}\<close>\<close>
  | GetDataset                \<comment> \<open>\<open>GET datasets/{prefix}\<close>\<close>
  | PostElement string        \<comment> \<open>\<open>POST datasets/{prefix}/elements\<close>, with the title sent\<close>

text \<open>
  Jobs submitted to \<open>pool_content\<close>. Each job issues one content request:
  \<open>_retrieve_segment_contents(ids)\<close> for the identifiers of a segment or page,
  \<open>element._retrieve_content\<close> for one element.
\<close>

datatype content_job =
    SegmentContents "ident list"
  | ElementContent ident

text \<open>
  An \<open>Element\<close> holds its metadata and \<open>content_promise\<close>, the future returned by
  \<open>pool_content.submit\<close>. A future is identified by the position of its job in the
  pool's submission log, so two elements share one job exactly when they hold the same
  number.
\<close>

record element =
  e_meta :: meta
  content_promise :: "nat option"

text \<open>
  Binary content is a sequence of bytes. The argument \<open>content\<close> of \<open>add_element\<close> is
  either a \<open>str\<close>, taken as the path of a file, or the bytes themselves.
\<close>

type_synonym bytes = "char list"

datatype content = StrContent string | BytesContent bytes

text \<open>The dictionary \<open>self.data\<close> and the server's answer to \<open>GET datasets/{prefix}\<close>.\<close>

record dataset_info =
  url_prefix :: string
  title :: string
  description :: string
  reference :: string
  tags :: "string list"

record dataset_data =
  dd_info :: dataset_info
  dd_elements_count :: int
  dd_comments_count :: int

text \<open>
  The mutable state: the fields of the \<open>Dataset\<close> object (of the interpreter only its
  \<open>cipher\<close>), the number of clock readings taken so far, the log of remote requests and
  the submission log of \<open>pool_content\<close> (both oldest first).
\<close>

record state =
  elements_count :: int
  comments_count :: int
  data :: dataset_info
  binary_interpreter :: "(bytes \<Rightarrow> bytes) option"
  page_cache :: "int \<rightharpoonup> meta list"
  last_cache_time :: int
  clock_reads :: nat
  requests :: "request list"
  content_jobs :: "content_job list"

text \<open>
  The surroundings. \<open>page_size\<close> is \<open>server_info['Page-Size']\<close>; \<open>CACHE_TIME\<close> comes from
  \<open>mldata.config\<close> and is taken as a parameter; \<open>now_at n\<close> is what the \<open>n\<close>-th call of
  \<open>now()\<close> returns. Times are integers in one unit (microseconds, the resolution of
  \<open>datetime\<close>), and \<open>CACHE_TIME\<close> is expressed in that unit, so that
  \<open>(now() - last).total_seconds() > CACHE_TIME\<close> is a comparison of integers.
  The \<open>remote_\<close> fields are the answers of the remote service to each request: a value,
  or the exception the API wrapper raises. \<open>set_content\<close> is the method of that name of
  \<open>Element\<close> (\<open>mldata.element\<close> is not among the sources): the model needs only whether
  it raises. \<open>read_file\<close> is the file system: the bytes of the file at a path, \<open>None\<close>
  where \<open>os.path.exists\<close> is false.
\<close>

record env =
  page_size :: int
  CACHE_TIME :: int
  now_at :: "nat \<Rightarrow> int"
  remote_page :: "int \<Rightarrow> error + meta list"
  remote_bundle :: "ident list \<Rightarrow> error + meta list"
  remote_element :: "string \<Rightarrow> error + meta"
  remote_delete :: "string \<Rightarrow> error + unit"
  remote_dataset :: "error + dataset_data"
  remote_post :: "string \<Rightarrow> string \<Rightarrow> string list \<Rightarrow> string \<Rightarrow> error + string"
  set_content :: "element \<Rightarrow> bytes \<Rightarrow> bool \<Rightarrow> error + unit"
  read_file :: "string \<Rightarrow> bytes option"

section \<open>Python primitives\<close>

text \<open>
  \<open>xs[i]\<close> on a list: \<open>IndexError\<close> outside \<open>-len(xs) \<le> i < len(xs)\<close>, and \<open>xs[-k]\<close> is the
  \<open>k\<close>-th entry from the end.
\<close>

definition py_index :: "'a list \<Rightarrow> int \<Rightarrow> error + 'a" where
  "py_index xs i =
     (if 0 \<le> i
      then (if nat i < length xs then Inr (xs ! nat i) else Inl IndexError)
      else (if nat (- i) \<le> length xs then Inr (xs ! (length xs - nat (- i)))
            else Inl IndexError))"

section \<open>The key resolver \<open>_get_key\<close>\<close>

text \<open>
  Lines 244 to 261. The \<open>try\<close> block reads the clock, clears the cache when it is older
  than \<open>CACHE_TIME\<close> and looks the page up; the handler of the \<open>KeyError\<close> of the lookup
  fetches the page, stores it and stamps the cache. An exception of the fetch or of
  \<open>page[index]\<close> leaves the function with the state as changed so far.
\<close>

definition get_key :: "env \<Rightarrow> int \<Rightarrow> state \<Rightarrow> (error + ident) \<times> state" where
  "get_key ev key_index s =
     (let ps = page_size ev in
      if ps = 0 then (Inl ZeroDivisionError, s)
      else
        let key_page = key_index div ps;
            index = key_index mod ps;
            t = now_at ev (clock_reads s);
            s1 = s\<lparr>clock_reads := Suc (clock_reads s)\<rparr>;
            s2 = (if t - last_cache_time s1 > CACHE_TIME ev
                  then s1\<lparr>page_cache := Map.empty\<rparr> else s1)
        in case page_cache s2 key_page of
             Some page \<Rightarrow>
               (case py_index page index of
                  Inl e \<Rightarrow> (Inl e, s2)
                | Inr m \<Rightarrow> (Inr (m_id m), s2))
           | None \<Rightarrow>
               (let s3 = s2\<lparr>requests := requests s2 @ [GetPage key_page]\<rparr>
                in case remote_page ev key_page of
                     Inl e \<Rightarrow> (Inl e, s3)
                   | Inr page \<Rightarrow>
                       (let s4 = s3\<lparr>page_cache := (page_cache s3)(key_page \<mapsto> page),
                                    last_cache_time := now_at ev (clock_reads s3),
                                    clock_reads := Suc (clock_reads s3)\<rparr>
                        in case py_index page index of
                             Inl e \<Rightarrow> (Inl e, s4)
                           | Inr m \<Rightarrow> (Inr (m_id m), s4))))"

section \<open>Slices, ranges and key conversion\<close>

text \<open>\<open>len(self)\<close>: \<open>__len__\<close> returns \<open>elements_count\<close>, and \<open>len\<close> refuses a negative value.\<close>

definition py_len :: "state \<Rightarrow> error + int" where
  "py_len s = (if elements_count s < 0 then Inl ValueError else Inr (elements_count s))"

text \<open>\<open>range(start, stop, step)\<close> for a step other than zero, as a list.\<close>

definition py_range :: "int \<Rightarrow> int \<Rightarrow> int \<Rightarrow> int list" where
  "py_range start stop step =
     (if step > 0
      then map (\<lambda>k. start + int k * step) [0..<nat ((stop - start + step - 1) div step)]
      else if step < 0
      then map (\<lambda>k. start + int k * step) [0..<nat ((start - stop - step - 1) div (- step))]
      else [])"

text \<open>\<open>str(k)\<close> of an integer: the decimal digits, after a minus sign when negative.\<close>

fun digits_of :: "nat \<Rightarrow> string" where
  "digits_of n =
     (if n < 10 then [char_of (48 + n)]
      else digits_of (n div 10) @ [char_of (48 + n mod 10)])"

declare digits_of.simps [simp del]

definition str_int :: "int \<Rightarrow> string" where
  "str_int k = (if k < 0 then CHR ''-'' # digits_of (nat (- k)) else digits_of (nat k))"

text \<open>
  \<open>int(s)\<close> of a string, on code points below 256: surrounding whitespace is stripped, one
  sign is allowed, then decimal digits, single underscores allowed between two digits.
  \<open>None\<close> is the \<open>ValueError\<close> of \<open>int\<close>. The whitespace \<open>int\<close> strips is tab, line
  feed, vertical tab, form feed, carriage return and space, and of the code points from
  128 on the two spaces U+0085 and U+00A0; the separators U+001C to U+001F, which
  \<open>str.isspace\<close> accepts, are not stripped (\<open>int('\\x1c2')\<close> is a \<open>ValueError\<close>).
\<close>

definition is_space :: "char \<Rightarrow> bool" where
  "is_space c = List.member
     [CHR 0x09, CHR 0x0A, CHR 0x0B, CHR 0x0C, CHR 0x0D, CHR 0x20, CHR 0x85, CHR 0xA0] c"

definition is_digit :: "char \<Rightarrow> bool" where
  "is_digit c = (48 \<le> (of_char c :: nat) \<and> (of_char c :: nat) \<le> 57)"

fun parse_digits :: "string \<Rightarrow> nat \<Rightarrow> bool \<Rightarrow> nat option" where
  "parse_digits [] acc after_digit = (if after_digit then Some acc else None)"
| "parse_digits (c # cs) acc after_digit =
     (if is_digit c then parse_digits cs (acc * 10 + (of_char c - 48)) True
      else if c = CHR ''_'' \<and> after_digit then parse_digits cs acc False
      else None)"

definition strip :: "string \<Rightarrow> string" where
  "strip s = rev (dropWhile is_space (rev (dropWhile is_space s)))"

definition int_of_str :: "string \<Rightarrow> int option" where
  "int_of_str s =
     (case strip s of
        [] \<Rightarrow> None
      | c # cs \<Rightarrow>
          if c = CHR ''-'' then map_option (\<lambda>n. - int n) (parse_digits cs 0 False)
          else if c = CHR ''+'' then map_option int (parse_digits cs 0 False)
          else map_option int (parse_digits (c # cs) 0 False))"

text \<open>
  \<open>type(key) is slice\<close>, \<open>str(key)\<close> and \<open>int(key)\<close> on the keys of the model. The \<open>str\<close> of
  a slice is its \<open>repr\<close>, and \<open>int\<close> of a slice or of \<open>None\<close> is a \<open>TypeError\<close>; \<open>int(True)\<close>
  is 1 and \<open>int(False)\<close> is 0.
\<close>

definition outcome :: "int_outcome \<Rightarrow> error + int" where
  "outcome r =
     (case r of
        IntValue k \<Rightarrow> Inr k
      | IntValueError \<Rightarrow> Inl ValueError
      | IntTypeError \<Rightarrow> Inl TypeError
      | IntOverflowError \<Rightarrow> Inl OverflowError)"

definition is_slice :: "key \<Rightarrow> bool" where
  "is_slice key = (case key of SliceKey a b c \<Rightarrow> True | _ \<Rightarrow> False)"

definition str_opt :: "int option \<Rightarrow> string" where
  "str_opt x = (case x of None \<Rightarrow> ''None'' | Some k \<Rightarrow> str_int k)"

definition py_str :: "key \<Rightarrow> string" where
  "py_str key =
     (case key of
        IntKey k \<Rightarrow> str_int k
      | StrKey t \<Rightarrow> t
      | SliceKey a b c \<Rightarrow>
          ''slice('' @ str_opt a @ '', '' @ str_opt b @ '', '' @ str_opt c @ '')''
      | BoolKey b \<Rightarrow> (if b then ''True'' else ''False'')
      | NoneKey \<Rightarrow> ''None''
      | OtherKey text r \<Rightarrow> text)"

definition py_int :: "key \<Rightarrow> error + int" where
  "py_int key =
     (case key of
        IntKey k \<Rightarrow> Inr k
      | StrKey t \<Rightarrow> (case int_of_str t of None \<Rightarrow> Inl ValueError | Some k \<Rightarrow> Inr k)
      | SliceKey a b c \<Rightarrow> Inl TypeError
      | BoolKey b \<Rightarrow> Inr (if b then 1 else 0)
      | NoneKey \<Rightarrow> Inl TypeError
      | OtherKey text r \<Rightarrow> outcome r)"

text \<open>
  Lines 159 to 161: a key that is not a slice and whose \<open>str\<close> has fewer than 8 characters
  is converted with \<open>int\<close> and replaced by the slice \<open>key : key + 1 : 1\<close>.
\<close>

definition short_key_to_slice :: "key \<Rightarrow> error + key" where
  "short_key_to_slice key =
     (if is_slice key then Inr key
      else if length (py_str key) < 8
      then (case py_int key of
              Inl e \<Rightarrow> Inl e
            | Inr k \<Rightarrow> Inr (SliceKey (Some k) (Some (k + 1)) (Some 1)))
      else Inr key)"

text \<open>
  Lines 166 to 175: the indices of a slice. \<open>step\<close> defaults to 1 and \<open>stop\<close> to
  \<open>len(self)\<close>; line 171 then compares \<open>key.stop\<close> itself with 0, which raises
  \<open>TypeError\<close> when it is \<open>None\<close>, and replaces a negative stop by \<open>len(self) - stop\<close>.
  \<open>range\<close> raises \<open>TypeError\<close> on a start that is \<open>None\<close> and \<open>ValueError\<close> on a zero step.
\<close>

definition slice_indices ::
  "state \<Rightarrow> int option \<Rightarrow> int option \<Rightarrow> int option \<Rightarrow> error + int list" where
  "slice_indices s kstart kstop kstep =
     (let step = (case kstep of None \<Rightarrow> 1 | Some st \<Rightarrow> st) in
      case (case kstop of None \<Rightarrow> py_len s | Some sp \<Rightarrow> Inr sp) of
        Inl e \<Rightarrow> Inl e
      | Inr stop0 \<Rightarrow>
          (case kstop of
             None \<Rightarrow> Inl TypeError
           | Some sp \<Rightarrow>
               (case (if sp < 0
                      then (case py_len s of Inl e \<Rightarrow> Inl e | Inr n \<Rightarrow> Inr (n - stop0))
                      else Inr stop0) of
                  Inl e \<Rightarrow> Inl e
                | Inr stop \<Rightarrow>
                    (case kstart of
                       None \<Rightarrow> Inl TypeError
                     | Some start \<Rightarrow>
                         if step = 0 then Inl ValueError
                         else Inr (py_range start stop step)))))"

section \<open>Segments and the segment fetcher\<close>

text \<open>
  Modelled from the spec: \<open>segments\<close> of \<open>mldata.config\<close>, which is not among the sources.
  The spec describes a segment as a maximal list of identifiers capped at the page size,
  every identifier being in exactly one segment: the list is cut, in order, into pieces of
  \<open>n\<close> identifiers, the last one possibly shorter. The spec says nothing of \<open>n \<le> 0\<close>;
  the model yields no segment there.
\<close>

function segments :: "'a list \<Rightarrow> int \<Rightarrow> 'a list list" where
  "segments l n =
     (if l = [] then []
      else if n \<le> 0 then []
      else take (nat n) l # segments (drop (nat n) l) n)"
  by pat_completeness auto
termination
  by (relation "measure (\<lambda>(l, n). length l)") auto

declare segments.simps [simp del]

text \<open>
  Modelled from the spec: \<open>Element.from_dict\<close> of \<open>mldata.element\<close>, which is not among
  the sources. It builds the element from its metadata dictionary, with no content
  promise yet; \<open>get_id\<close> returns the identifier.
\<close>

definition from_dict :: "meta \<Rightarrow> element" where
  "from_dict result = \<lparr>e_meta = result, content_promise = None\<rparr>"

definition get_id :: "element \<Rightarrow> ident" where
  "get_id e = m_id (e_meta e)"

text \<open>
  Lines 132 to 149. One bundle request for \<open>ids\<close>; the elements are built in the order of
  the response; one job for the contents of \<open>ids\<close> is submitted to \<open>pool_content\<close> and
  its future is attached to every element.
\<close>

definition request_segment ::
  "env \<Rightarrow> ident list \<Rightarrow> state \<Rightarrow> (error + element list) \<times> state" where
  "request_segment ev ids s =
     (let s1 = s\<lparr>requests := requests s @ [GetBundle ids]\<rparr>
      in case remote_bundle ev ids of
           Inl e \<Rightarrow> (Inl e, s1)
         | Inr results \<Rightarrow>
             (let elements = map from_dict results;
                  future = length (content_jobs s1);
                  s2 = s1\<lparr>content_jobs := content_jobs s1 @ [SegmentContents ids]\<rparr>
              in (Inr (map (\<lambda>e. e\<lparr>content_promise := Some future\<rparr>) elements), s2)))"

section \<open>\<open>__getitem__\<close>\<close>

text \<open>Line 175: the identifiers are resolved one index after the other.\<close>

fun get_keys :: "env \<Rightarrow> int list \<Rightarrow> state \<Rightarrow> (error + ident list) \<times> state" where
  "get_keys ev [] s = (Inr [], s)"
| "get_keys ev (i # rest) s =
     (case get_key ev i s of
        (Inl e, s1) \<Rightarrow> (Inl e, s1)
      | (Inr k, s1) \<Rightarrow>
          (case get_keys ev rest s1 of
             (Inl e, s2) \<Rightarrow> (Inl e, s2)
           | (Inr ks, s2) \<Rightarrow> (Inr (k # ks), s2)))"

text \<open>
  Line 177: one job per segment is submitted to \<open>pool_keys\<close>, and the argument of every
  job is \<open>ids\<close>, the whole list (the loop variable \<open>segment\<close> is not used). The pools are
  modelled sequentially: a job runs when it is submitted and its outcome, a value or an
  exception, is kept in its future.
\<close>

fun submit_segment_jobs ::
  "env \<Rightarrow> ident list \<Rightarrow> ident list list \<Rightarrow> state \<Rightarrow> (error + element list) list \<times> state" where
  "submit_segment_jobs ev ids [] s = ([], s)"
| "submit_segment_jobs ev ids (segment # rest) s =
     (case request_segment ev ids s of
        (r, s1) \<Rightarrow>
          (case submit_segment_jobs ev ids rest s1 of
             (rs, s2) \<Rightarrow> (r # rs, s2)))"

text \<open>Lines 181 and 182: \<open>future.result()\<close> in submission order; the first exception is raised.\<close>

fun collect_results :: "(error + 'a list) list \<Rightarrow> error + 'a list" where
  "collect_results [] = Inr []"
| "collect_results (Inl e # rest) = Inl e"
| "collect_results (Inr xs # rest) =
     (case collect_results rest of Inl e \<Rightarrow> Inl e | Inr ys \<Rightarrow> Inr (xs @ ys))"

definition slice_elements ::
  "env \<Rightarrow> int option \<Rightarrow> int option \<Rightarrow> int option \<Rightarrow> state \<Rightarrow> (error + element list) \<times> state" where
  "slice_elements ev kstart kstop kstep s =
     (case slice_indices s kstart kstop kstep of
        Inl e \<Rightarrow> (Inl e, s)
      | Inr indices \<Rightarrow>
          (case get_keys ev indices s of
             (Inl e, s1) \<Rightarrow> (Inl e, s1)
           | (Inr ids, s1) \<Rightarrow>
               (case submit_segment_jobs ev ids (segments ids (page_size ev)) s1 of
                  (futures, s2) \<Rightarrow> (collect_results futures, s2))))"

text \<open>
  Lines 185 to 194: the fetch by identifier. Every exception raised inside the \<open>try\<close> is
  caught and leaves \<open>elements\<close> empty.
\<close>

definition element_by_id :: "env \<Rightarrow> string \<Rightarrow> state \<Rightarrow> element list \<times> state" where
  "element_by_id ev k s =
     (let s1 = s\<lparr>requests := requests s @ [GetElement k]\<rparr>
      in case remote_element ev k of
           Inl e \<Rightarrow> ([], s1)
         | Inr response \<Rightarrow>
             (let element = from_dict response;
                  future = length (content_jobs s1);
                  s2 = s1\<lparr>content_jobs := content_jobs s1 @ [ElementContent (get_id element)]\<rparr>
              in ([element\<lparr>content_promise := Some future\<rparr>], s2)))"

datatype result = One element | Many "element list"

definition getitem :: "env \<Rightarrow> key \<Rightarrow> state \<Rightarrow> (error + result) \<times> state" where
  "getitem ev key0 s =
     (case short_key_to_slice key0 of
        Inl e \<Rightarrow> (Inl e, s)
      | Inr key \<Rightarrow>
          (case (case key of
                   SliceKey kstart kstop kstep \<Rightarrow> slice_elements ev kstart kstop kstep s
                 | StrKey k \<Rightarrow> (case element_by_id ev k s of (els, s1) \<Rightarrow> (Inr els, s1))
                 | _ \<Rightarrow> (Inl KeyTypeNotAllowed, s)) of
             (Inl e, s1) \<Rightarrow> (Inl e, s1)
           | (Inr elements, s1) \<Rightarrow>
               if length elements > 1 then (Inr (Many elements), s1)
               else if length elements = 1 then (Inr (One (elements ! 0)), s1)
               else (Inl (NotFound key), s1)))"

section \<open>Mutation: \<open>refresh\<close>, \<open>__delitem__\<close> and \<open>add_element\<close>\<close>

text \<open>Lines 379 to 383.\<close>

definition refresh :: "env \<Rightarrow> state \<Rightarrow> (error + unit) \<times> state" where
  "refresh ev s =
     (let s1 = s\<lparr>requests := requests s @ [GetDataset]\<rparr>
      in case remote_dataset ev of
           Inl e \<Rightarrow> (Inl e, s1)
         | Inr dataset_data \<Rightarrow>
             (Inr (), s1\<lparr>elements_count := dd_elements_count dataset_data,
                         comments_count := dd_comments_count dataset_data,
                         data := dd_info dataset_data\<rparr>))"

text \<open>Lines 208 to 210.\<close>

definition delitem :: "env \<Rightarrow> string \<Rightarrow> state \<Rightarrow> (error + unit) \<times> state" where
  "delitem ev k s =
     (let s1 = s\<lparr>requests := requests s @ [DeleteElement k]\<rparr>
      in case remote_delete ev k of
           Inl e \<Rightarrow> (Inl e, s1)
         | Inr u \<Rightarrow> refresh ev s1)"

text \<open>
  Lines 104 to 130. The identifier returned by the \<open>POST\<close> is a string and is looked up
  with \<open>self[result]\<close>; when that yields a list, \<open>element.set_content\<close> is an
  \<open>AttributeError\<close>.
\<close>

definition add_element ::
  "env \<Rightarrow> string \<Rightarrow> string \<Rightarrow> string list \<Rightarrow> string \<Rightarrow> content \<Rightarrow> bool \<Rightarrow> state
     \<Rightarrow> (error + element) \<times> state" where
  "add_element ev ttl descr tgs http_ref content0 interpret s =
     (case (case content0 of
              StrContent path \<Rightarrow>
                (case read_file ev path of
                   None \<Rightarrow> Inl ContentNotAFile
                 | Some content_bytes \<Rightarrow>
                     (case binary_interpreter s of
                        None \<Rightarrow> Inr content_bytes
                      | Some cipher \<Rightarrow> Inr (cipher content_bytes)))
            | BytesContent b \<Rightarrow> Inr b) of
        Inl e \<Rightarrow> (Inl e, s)
      | Inr content \<Rightarrow>
          (let s1 = s\<lparr>requests := requests s @ [PostElement ttl]\<rparr>
           in case remote_post ev ttl descr tgs http_ref of
                Inl e \<Rightarrow> (Inl e, s1)
              | Inr result \<Rightarrow>
                  (case refresh ev s1 of
                     (Inl e, s2) \<Rightarrow> (Inl e, s2)
                   | (Inr u, s2) \<Rightarrow>
                       (case getitem ev (StrKey result) s2 of
                          (Inl e, s3) \<Rightarrow> (Inl e, s3)
                        | (Inr (Many elements), s3) \<Rightarrow> (Inl AttributeError, s3)
                        | (Inr (One element), s3) \<Rightarrow>
                            (case set_content ev element content interpret of
                               Inl e \<Rightarrow> (Inl e, s3)
                             | Inr v \<Rightarrow> (Inr element, s3))))))"

section \<open>Iteration: \<open>__iter__\<close>\<close>

text \<open>Lines 212 to 215.\<close>

definition get_elements :: "env \<Rightarrow> int \<Rightarrow> state \<Rightarrow> (error + element list) \<times> state" where
  "get_elements ev page s =
     (let s1 = s\<lparr>requests := requests s @ [GetPage page]\<rparr>
      in case remote_page ev page of
           Inl e \<Rightarrow> (Inl e, s1)
         | Inr ms \<Rightarrow> (Inr (map from_dict ms), s1))"

text \<open>
  Lines 227 to 242, the loop over the pages with \<open>buffer\<close> as loop state. The generator
  is run to its end: the result is the list of the elements yielded, and the exception
  that ended the iteration if there was one (raised by \<open>buffer.result()\<close>). The outcome of
  \<open>buffer2\<close> of the last round is never read.
\<close>

fun iter_pages ::
  "env \<Rightarrow> int list \<Rightarrow> (error + element list) option \<Rightarrow> state
     \<Rightarrow> (element list \<times> error option) \<times> state" where
  "iter_pages ev [] buffer s = (([], None), s)"
| "iter_pages ev (page # pages) buffer s =
     (case (case buffer of None \<Rightarrow> get_elements ev page s | Some b \<Rightarrow> (b, s)) of
        (buf, s1) \<Rightarrow>
          (case get_elements ev (page + 1) s1 of
             (buffer2, s2) \<Rightarrow>
               (case buf of
                  Inl e \<Rightarrow> (([], Some e), s2)
                | Inr elements \<Rightarrow>
                    (let future = length (content_jobs s2);
                         s3 = s2\<lparr>content_jobs :=
                                   content_jobs s2 @ [SegmentContents (map get_id elements)]\<rparr>;
                         yielded = map (\<lambda>e. e\<lparr>content_promise := Some future\<rparr>) elements
                     in case iter_pages ev pages (Some buffer2) s3 of
                          ((later, err), s4) \<Rightarrow> ((yielded @ later, err), s4)))))"

text \<open>Lines 222 and 223, then the loop.\<close>

definition iter :: "env \<Rightarrow> state \<Rightarrow> (element list \<times> error option) \<times> state" where
  "iter ev s =
     (let ps = page_size ev in
      case py_len s of
        Inl e \<Rightarrow> (([], Some e), s)
      | Inr n \<Rightarrow>
          if ps = 0 then (([], Some ZeroDivisionError), s)
          else
            (let number_of_pages = n div ps + (if n mod ps > 0 then 1 else 0)
             in iter_pages ev (py_range 0 number_of_pages 1) None s))"

section \<open>The scenario of the specification\<close>

text \<open>
  Page size 2 and five elements with the identifiers a to e. The remote service answers
  a page request with the page (an empty page beyond the end, a failure for a negative
  page number), a bundle request with the metadata of the requested identifiers in the
  order of the request, and an element request with the element or a failure; a new
  element gets its title as identifier. There are no files.
\<close>

definition mk :: "ident \<Rightarrow> meta" where
  "mk i = \<lparr>m_id = i, m_fields = []\<rparr>"

definition five :: "meta list" where
  "five = [mk ''a'', mk ''b'', mk ''c'', mk ''d'', mk ''e'']"

definition info0 :: dataset_info where
  "info0 = \<lparr>url_prefix = ''u/d'', title = ''t'', description = ''info'', reference = ''ref'',
            tags = []\<rparr>"

definition serve :: "meta list \<Rightarrow> int \<Rightarrow> env" where
  "serve ms ps =
     \<lparr>page_size = ps, CACHE_TIME = 60, now_at = (\<lambda>n. int n),
      remote_page = (\<lambda>p. if p < 0 then Inl (RemoteFailure ''500'')
                          else Inr (take (nat ps) (drop (nat (p * ps)) ms))),
      remote_bundle = (\<lambda>ids. Inr (map mk ids)),
      remote_element = (\<lambda>k. case find (\<lambda>m. m_id m = k) ms of
                                None \<Rightarrow> Inl (RemoteFailure ''404'')
                              | Some m \<Rightarrow> Inr m),
      remote_delete = (\<lambda>k. Inr ()),
      remote_dataset = Inr \<lparr>dd_info = info0, dd_elements_count = int (length ms),
                            dd_comments_count = 0\<rparr>,
      remote_post = (\<lambda>ttl descr tgs http_ref. Inr ttl),
      set_content = (\<lambda>e b interpret. Inr ()),
      read_file = (\<lambda>path. None)\<rparr>"

definition fresh :: "int \<Rightarrow> state" where
  "fresh n =
     \<lparr>elements_count = n, comments_count = 0, data = info0, binary_interpreter = None,
      page_cache = Map.empty,
      last_cache_time = 0, clock_reads = 0, requests = [], content_jobs = []\<rparr>"

text \<open>
  The same service with the bundle answered in the reverse of the requested order, the
  same service with a clock that advances by \<open>pace\<close> from one reading to the next, a
  state whose page cache is already filled, an element as it leaves the segment fetcher
  (metadata and the number of its content job), and a collection of ten elements.
\<close>

definition serve_reversed :: "meta list \<Rightarrow> int \<Rightarrow> env" where
  "serve_reversed ms ps = (serve ms ps)\<lparr>remote_bundle := (\<lambda>ids. Inr (rev (map mk ids)))\<rparr>"

definition serve_clock :: "meta list \<Rightarrow> int \<Rightarrow> int \<Rightarrow> env" where
  "serve_clock ms ps pace = (serve ms ps)\<lparr>now_at := (\<lambda>n. pace * int n)\<rparr>"

definition with_cache :: "int \<Rightarrow> (int \<rightharpoonup> meta list) \<Rightarrow> nat \<Rightarrow> state" where
  "with_cache n cache reads = (fresh n)\<lparr>page_cache := cache, clock_reads := reads\<rparr>"

definition promised :: "nat \<Rightarrow> meta \<Rightarrow> element" where
  "promised future m = \<lparr>e_meta = m, content_promise = Some future\<rparr>"

definition ten :: "meta list" where
  "ten = [mk ''e0'', mk ''e1'', mk ''e2'', mk ''e3'', mk ''e4'',
          mk ''e5'', mk ''e6'', mk ''e7'', mk ''e8'', mk ''e9'']"

section \<open>Notions used in the statements\<close>

text \<open>
  The identifier at a non-negative offset of a page, \<open>IndexError\<close> when the page has no
  entry there; and the requests that fetch one element by its identifier.
\<close>

definition identifier_at :: "meta list \<Rightarrow> int \<Rightarrow> error + ident" where
  "identifier_at page off =
     (if nat off < length page then Inr (m_id (page ! nat off)) else Inl IndexError)"

text \<open>
  The cache as the lookup of a resolve finds it: emptied when the clock reading of the
  resolve is more than \<open>CACHE_TIME\<close> after \<open>last_cache_time\<close>, as it was otherwise.
\<close>

definition cache_at_lookup :: "env \<Rightarrow> state \<Rightarrow> (int \<rightharpoonup> meta list)" where
  "cache_at_lookup ev s =
     (if CACHE_TIME ev < now_at ev (clock_reads s) - last_cache_time s then Map.empty
      else page_cache s)"

definition is_get_element :: "request \<Rightarrow> bool" where
  "is_get_element r = (case r of GetElement k \<Rightarrow> True | _ \<Rightarrow> False)"

section \<open>The key resolver\<close>

text \<open>
  The two outcomes of the lookup in \<open>_get_key\<close>. On a hit nothing but the count of clock
  readings changes. On a miss the page request is logged, and when it is answered the
  page is stored and \<open>last_cache_time\<close> becomes the clock reading taken at that write.
\<close>

lemma get_key_hit:
  assumes "page_size ev \<noteq> 0"
    and "cache_at_lookup ev s (i div page_size ev) = Some pg"
  shows "snd (get_key ev i s) = s\<lparr>clock_reads := Suc (clock_reads s)\<rparr>"
  using assms
  by (auto simp: get_key_def cache_at_lookup_def Let_def split: sum.splits if_splits)

lemma get_key_miss:
  assumes "page_size ev \<noteq> 0"
    and "cache_at_lookup ev s (i div page_size ev) = None"
  shows "snd (get_key ev i s) =
           (case remote_page ev (i div page_size ev) of
              Inl e \<Rightarrow> s\<lparr>clock_reads := Suc (clock_reads s),
                        page_cache := cache_at_lookup ev s,
                        requests := requests s @ [GetPage (i div page_size ev)]\<rparr>
            | Inr page \<Rightarrow> s\<lparr>clock_reads := Suc (Suc (clock_reads s)),
                           page_cache := (cache_at_lookup ev s)(i div page_size ev \<mapsto> page),
                           last_cache_time := now_at ev (Suc (clock_reads s)),
                           requests := requests s @ [GetPage (i div page_size ev)]\<rparr>)"
  using assms
  by (auto simp: get_key_def cache_at_lookup_def Let_def split: sum.splits if_splits)

text \<open>
  C3. As amended: for every integer index and positive page size, \<open>_get_key(i)\<close> reads
  the page numbered \<open>i div page_size\<close>, the cached one when the cache has not expired and
  holds that page, the answer to a page request otherwise, and returns the identifier at
  offset \<open>i mod page_size\<close> of it. It fails with \<open>IndexError\<close> exactly when that page has
  at most \<open>i mod page_size\<close> entries and with the error of the request when the request
  fails. The length of the collection plays no part: changing \<open>elements_count\<close> does not
  change the result. A page that was fetched is then cached: after an answered request
  the cache is the cache of the lookup with that page added under its page number, and
  \<open>last_cache_time\<close> is the clock reading taken at the write; after a hit or a failed
  request the stamp is as before and no page is added.
\<close>

theorem get_key_reads_page_offset:
  assumes "0 < page_size ev"
  shows "fst (get_key ev i s) =
           (case (if CACHE_TIME ev < now_at ev (clock_reads s) - last_cache_time s then None
                  else page_cache s (i div page_size ev)) of
              Some page \<Rightarrow> identifier_at page (i mod page_size ev)
            | None \<Rightarrow>
                (case remote_page ev (i div page_size ev) of
                   Inl e \<Rightarrow> Inl e
                 | Inr page \<Rightarrow> identifier_at page (i mod page_size ev)))
       \<and> fst (get_key ev i (s\<lparr>elements_count := n\<rparr>)) = fst (get_key ev i s)
       \<and> page_cache (snd (get_key ev i s)) =
           (case cache_at_lookup ev s (i div page_size ev) of
              Some cached \<Rightarrow> page_cache s
            | None \<Rightarrow>
                (case remote_page ev (i div page_size ev) of
                   Inl e \<Rightarrow> cache_at_lookup ev s
                 | Inr page \<Rightarrow> (cache_at_lookup ev s)(i div page_size ev \<mapsto> page)))
       \<and> last_cache_time (snd (get_key ev i s)) =
           (case cache_at_lookup ev s (i div page_size ev) of
              Some cached \<Rightarrow> last_cache_time s
            | None \<Rightarrow>
                (case remote_page ev (i div page_size ev) of
                   Inl e \<Rightarrow> last_cache_time s
                 | Inr page \<Rightarrow> now_at ev (Suc (clock_reads s))))"
proof -
  have off: "0 \<le> i mod page_size ev" using assms by simp
  have nz: "page_size ev \<noteq> 0" using assms by simp
  have one: "fst (get_key ev i s) =
           (case (if CACHE_TIME ev < now_at ev (clock_reads s) - last_cache_time s then None
                  else page_cache s (i div page_size ev)) of
              Some page \<Rightarrow> identifier_at page (i mod page_size ev)
            | None \<Rightarrow>
                (case remote_page ev (i div page_size ev) of
                   Inl e \<Rightarrow> Inl e
                 | Inr page \<Rightarrow> identifier_at page (i mod page_size ev)))" for s :: state
    using assms off
    by (simp add: get_key_def Let_def py_index_def identifier_at_def
        split: option.splits sum.splits)
  have after: "page_cache (snd (get_key ev i s)) =
           (case cache_at_lookup ev s (i div page_size ev) of
              Some cached \<Rightarrow> page_cache s
            | None \<Rightarrow>
                (case remote_page ev (i div page_size ev) of
                   Inl e \<Rightarrow> cache_at_lookup ev s
                 | Inr page \<Rightarrow> (cache_at_lookup ev s)(i div page_size ev \<mapsto> page)))
       \<and> last_cache_time (snd (get_key ev i s)) =
           (case cache_at_lookup ev s (i div page_size ev) of
              Some cached \<Rightarrow> last_cache_time s
            | None \<Rightarrow>
                (case remote_page ev (i div page_size ev) of
                   Inl e \<Rightarrow> last_cache_time s
                 | Inr page \<Rightarrow> now_at ev (Suc (clock_reads s))))"
  proof (cases "cache_at_lookup ev s (i div page_size ev)")
    case None
    then show ?thesis
      using get_key_miss [OF nz None] by (simp split: sum.splits)
  next
    case (Some cached)
    then show ?thesis
      using get_key_hit [OF nz Some] by simp
  qed
  show ?thesis
    using one [of s] one [of "s\<lparr>elements_count := n\<rparr>"] after by simp
qed

theorem get_key_reads_page_offset_witness: "0 < page_size (serve five 2)
   \<and> fst (get_key (serve five 2) 3 (fresh 0)) = Inr ''d''
   \<and> page_cache (snd (get_key (serve five 2) 3 (fresh 0))) = [1 \<mapsto> [mk ''c'', mk ''d'']]
   \<and> last_cache_time (snd (get_key (serve five 2) 3 (fresh 0))) = 1
   \<and> fst (get_key (serve five 2) 5 (fresh 5)) = Inl IndexError
   \<and> fst (get_key (serve five 2) (- 1) (fresh 5)) = Inl (RemoteFailure ''500'')
   \<and> page_cache (snd (get_key (serve five 2) (- 1) (fresh 5))) = Map.empty"
  using get_key_reads_page_offset [of "serve five 2" 3 "fresh 0" 0]
    get_key_reads_page_offset [of "serve five 2" 5 "fresh 5" 0]
    get_key_reads_page_offset [of "serve five 2" "- 1" "fresh 5" 0]
  by (simp add: serve_def fresh_def five_def mk_def identifier_at_def cache_at_lookup_def)

text \<open>
  The claim as stated fails: with one element left in the collection and the page
  [a, b] still cached, index 1 is outside \<open>0 \<le> i < length\<close> and resolves to b.
\<close>

theorem get_key_beyond_length_counterexample:
  "\<not> 1 < elements_count (with_cache 1 [0 \<mapsto> [mk ''a'', mk ''b'']] 0)
   \<and> fst (get_key (serve [mk ''a''] 2) 1 (with_cache 1 [0 \<mapsto> [mk ''a'', mk ''b'']] 0))
       = Inr ''b''"
  by (simp add: serve_def with_cache_def fresh_def mk_def get_key_def py_index_def Let_def)

section \<open>Cache expiry\<close>

text \<open>
  C4. When a resolve reads the clock more than \<open>CACHE_TIME\<close> after \<open>last_cache_time\<close>, the
  cache is emptied before the lookup, one page request for the page of the index is
  issued whatever the cache held, and afterwards the cache holds nothing but the page
  just fetched (nothing at all when the fetch failed, whose error is the result).
  And \<open>last_cache_time\<close> is the time of the last cache write: a resolve within
  \<open>CACHE_TIME\<close> that finds its page changes neither cache nor stamp (only the count of
  clock readings), one whose request fails changes neither, and one whose request is
  answered stores the page and sets the stamp to the clock reading taken at that write.
  So for two resolves in a row: when the first writes the cache and the second reads the
  clock more than \<open>CACHE_TIME\<close> after that write, the second issues its own page request
  and leaves nothing in the cache but what it fetched.
\<close>

theorem get_key_expired_refetches:
  assumes "page_size ev \<noteq> 0"
  shows "(CACHE_TIME ev < now_at ev (clock_reads s) - last_cache_time s \<longrightarrow>
            requests (snd (get_key ev i s)) = requests s @ [GetPage (i div page_size ev)]
          \<and> (case remote_page ev (i div page_size ev) of
                Inl e \<Rightarrow> get_key ev i s =
                           (Inl e, s\<lparr>clock_reads := Suc (clock_reads s), page_cache := Map.empty,
                                    requests := requests s @ [GetPage (i div page_size ev)]\<rparr>)
              | Inr page \<Rightarrow>
                  page_cache (snd (get_key ev i s)) = [i div page_size ev \<mapsto> page]
                  \<and> last_cache_time (snd (get_key ev i s)) = now_at ev (Suc (clock_reads s))))
       \<and> (now_at ev (clock_reads s) - last_cache_time s \<le> CACHE_TIME ev \<longrightarrow>
            (case page_cache s (i div page_size ev) of
               Some cached \<Rightarrow>
                 snd (get_key ev i s) = s\<lparr>clock_reads := Suc (clock_reads s)\<rparr>
             | None \<Rightarrow>
                 (case remote_page ev (i div page_size ev) of
                    Inl e \<Rightarrow>
                      snd (get_key ev i s) =
                        s\<lparr>clock_reads := Suc (clock_reads s),
                          requests := requests s @ [GetPage (i div page_size ev)]\<rparr>
                  | Inr page \<Rightarrow>
                      page_cache (snd (get_key ev i s))
                        = (page_cache s)(i div page_size ev \<mapsto> page)
                      \<and> last_cache_time (snd (get_key ev i s))
                        = now_at ev (Suc (clock_reads s)))))
       \<and> (cache_at_lookup ev s (i div page_size ev) = None \<longrightarrow>
          remote_page ev (i div page_size ev) = Inr written \<longrightarrow>
          CACHE_TIME ev < now_at ev (Suc (Suc (clock_reads s))) - now_at ev (Suc (clock_reads s)) \<longrightarrow>
            requests (snd (get_key ev j (snd (get_key ev i s))))
              = requests s @ [GetPage (i div page_size ev), GetPage (j div page_size ev)]
          \<and> (case remote_page ev (j div page_size ev) of
                Inl e \<Rightarrow> page_cache (snd (get_key ev j (snd (get_key ev i s)))) = Map.empty
              | Inr page \<Rightarrow> page_cache (snd (get_key ev j (snd (get_key ev i s))))
                             = [j div page_size ev \<mapsto> page]))"
proof -
  let ?p = "i div page_size ev"
  have expired: "requests (snd (get_key ev i s)) = requests s @ [GetPage ?p]
          \<and> (case remote_page ev ?p of
                Inl e \<Rightarrow> get_key ev i s =
                           (Inl e, s\<lparr>clock_reads := Suc (clock_reads s), page_cache := Map.empty,
                                    requests := requests s @ [GetPage ?p]\<rparr>)
              | Inr page \<Rightarrow>
                  page_cache (snd (get_key ev i s)) = [?p \<mapsto> page]
                  \<and> last_cache_time (snd (get_key ev i s)) = now_at ev (Suc (clock_reads s)))"
    if "CACHE_TIME ev < now_at ev (clock_reads s) - last_cache_time s"
    using assms that by (auto simp: get_key_def Let_def split: sum.splits option.splits)
  have fresh: "(case page_cache s ?p of
               Some cached \<Rightarrow>
                 snd (get_key ev i s) = s\<lparr>clock_reads := Suc (clock_reads s)\<rparr>
             | None \<Rightarrow>
                 (case remote_page ev ?p of
                    Inl e \<Rightarrow>
                      snd (get_key ev i s) =
                        s\<lparr>clock_reads := Suc (clock_reads s),
                          requests := requests s @ [GetPage ?p]\<rparr>
                  | Inr page \<Rightarrow>
                      page_cache (snd (get_key ev i s)) = (page_cache s)(?p \<mapsto> page)
                      \<and> last_cache_time (snd (get_key ev i s))
                        = now_at ev (Suc (clock_reads s))))"
    if "now_at ev (clock_reads s) - last_cache_time s \<le> CACHE_TIME ev"
    using assms that by (auto simp: get_key_def Let_def split: sum.splits option.splits)
  have two: "requests (snd (get_key ev j (snd (get_key ev i s))))
              = requests s @ [GetPage ?p, GetPage (j div page_size ev)]
          \<and> (case remote_page ev (j div page_size ev) of
                Inl e \<Rightarrow> page_cache (snd (get_key ev j (snd (get_key ev i s)))) = Map.empty
              | Inr page \<Rightarrow> page_cache (snd (get_key ev j (snd (get_key ev i s))))
                             = [j div page_size ev \<mapsto> page])"
    if miss: "cache_at_lookup ev s ?p = None" and ans: "remote_page ev ?p = Inr written"
      and late: "CACHE_TIME ev < now_at ev (Suc (Suc (clock_reads s))) - now_at ev (Suc (clock_reads s))"
  proof -
    define s1 where "s1 = snd (get_key ev i s)"
    have s1: "s1 = s\<lparr>clock_reads := Suc (Suc (clock_reads s)),
                     page_cache := (cache_at_lookup ev s)(?p \<mapsto> written),
                     last_cache_time := now_at ev (Suc (clock_reads s)),
                     requests := requests s @ [GetPage ?p]\<rparr>"
      using get_key_miss [OF assms miss] ans by (simp add: s1_def)
    have gone: "cache_at_lookup ev s1 (j div page_size ev) = None"
      using late by (simp add: s1 cache_at_lookup_def)
    have "snd (get_key ev j s1) =
           (case remote_page ev (j div page_size ev) of
              Inl e \<Rightarrow> s1\<lparr>clock_reads := Suc (clock_reads s1),
                        page_cache := cache_at_lookup ev s1,
                        requests := requests s1 @ [GetPage (j div page_size ev)]\<rparr>
            | Inr page \<Rightarrow> s1\<lparr>clock_reads := Suc (Suc (clock_reads s1)),
                           page_cache := (cache_at_lookup ev s1)(j div page_size ev \<mapsto> page),
                           last_cache_time := now_at ev (Suc (clock_reads s1)),
                           requests := requests s1 @ [GetPage (j div page_size ev)]\<rparr>)"
      using get_key_miss [OF assms gone] by simp
    moreover have "cache_at_lookup ev s1 = Map.empty"
      using late by (simp add: s1 cache_at_lookup_def)
    ultimately show ?thesis
      by (simp add: s1_def [symmetric] s1 split: sum.splits)
  qed
  show ?thesis using expired fresh two by blast
qed

theorem get_key_expired_refetches_witness:
  "page_size (serve five 2) \<noteq> 0
   \<and> now_at (serve five 2)
         (clock_reads (with_cache 5 [0 \<mapsto> [mk ''x'', mk ''y''], 1 \<mapsto> [mk ''z'']] 61))
       - last_cache_time (with_cache 5 [0 \<mapsto> [mk ''x'', mk ''y''], 1 \<mapsto> [mk ''z'']] 61)
       > CACHE_TIME (serve five 2)
   \<and> requests (snd (get_key (serve five 2) 1
         (with_cache 5 [0 \<mapsto> [mk ''x'', mk ''y''], 1 \<mapsto> [mk ''z'']] 61))) = [GetPage 0]
   \<and> page_cache (snd (get_key (serve five 2) 1
         (with_cache 5 [0 \<mapsto> [mk ''x'', mk ''y''], 1 \<mapsto> [mk ''z'']] 61)))
       = [0 \<mapsto> [mk ''a'', mk ''b'']]
   \<and> last_cache_time (snd (get_key (serve five 2) 1
         (with_cache 5 [0 \<mapsto> [mk ''x'', mk ''y''], 1 \<mapsto> [mk ''z'']] 61))) = 62
   \<and> fst (get_key (serve five 2) 1
         (with_cache 5 [0 \<mapsto> [mk ''x'', mk ''y''], 1 \<mapsto> [mk ''z'']] 61)) = Inr ''b''
   \<and> now_at (serve five 2) (clock_reads (with_cache 5 [0 \<mapsto> [mk ''x'', mk ''y'']] 60))
       - last_cache_time (with_cache 5 [0 \<mapsto> [mk ''x'', mk ''y'']] 60) \<le> CACHE_TIME (serve five 2)
   \<and> last_cache_time (snd (get_key (serve five 2) 1
         (with_cache 5 [0 \<mapsto> [mk ''x'', mk ''y'']] 60))) = 0
   \<and> requests (snd (get_key (serve five 2) 1
         (with_cache 5 [0 \<mapsto> [mk ''x'', mk ''y'']] 60))) = []
   \<and> page_size (serve_clock five 2 70) \<noteq> 0
   \<and> cache_at_lookup (serve_clock five 2 70) (fresh 5) (0 div page_size (serve_clock five 2 70))
       = None
   \<and> remote_page (serve_clock five 2 70) (0 div page_size (serve_clock five 2 70))
       = Inr [mk ''a'', mk ''b'']
   \<and> CACHE_TIME (serve_clock five 2 70)
       < now_at (serve_clock five 2 70) (Suc (Suc (clock_reads (fresh 5))))
         - now_at (serve_clock five 2 70) (Suc (clock_reads (fresh 5)))
   \<and> requests (snd (get_key (serve_clock five 2 70) 3
         (snd (get_key (serve_clock five 2 70) 0 (fresh 5))))) = [GetPage 0, GetPage 1]
   \<and> page_cache (snd (get_key (serve_clock five 2 70) 3
         (snd (get_key (serve_clock five 2 70) 0 (fresh 5))))) = [1 \<mapsto> [mk ''c'', mk ''d'']]"
proof -
  let ?old = "with_cache 5 [0 \<mapsto> [mk ''x'', mk ''y''], 1 \<mapsto> [mk ''z'']] 61"
  let ?young = "with_cache 5 [0 \<mapsto> [mk ''x'', mk ''y'']] 60"
  have h1: "page_size (serve five 2) \<noteq> 0" by (simp add: serve_def)
  have h2: "page_size (serve_clock five 2 70) \<noteq> 0" by (simp add: serve_clock_def serve_def)
  have r: "fst (get_key (serve five 2) 1 ?old) = Inr ''b''"
    by (simp add: serve_def with_cache_def fresh_def five_def mk_def get_key_def py_index_def
        Let_def)
  show ?thesis
    using h1 h2 r
      get_key_expired_refetches [OF h1, of ?old 1 "[]" 0]
      get_key_expired_refetches [OF h1, of ?young 1 "[]" 0]
      get_key_expired_refetches [OF h2, of "fresh 5" 0 "[mk ''a'', mk ''b'']" 3]
    by (simp add: serve_clock_def serve_def with_cache_def fresh_def five_def mk_def
        cache_at_lookup_def)
qed

section \<open>Slice access and segments\<close>

text \<open>
  C1. The claim: the identifiers of a slice are cut into segments of at most Page-Size
  identifiers and each identifier goes into exactly one metadata request and one content
  request. The code at \<open>ds[2:5]\<close> on the five elements with page size 2: the identifiers
  c, d, e make the two segments [c, d] and [e], and each of the two jobs sends the whole
  list. Both bundle requests and both content jobs carry three identifiers, and every
  identifier is requested twice.
\<close>

theorem getitem_slice_sends_whole_list_per_segment:
  "segments [''c'', ''d'', ''e''] 2 = [[''c'', ''d''], [''e'']]
   \<and> requests (snd (getitem (serve five 2) (SliceKey (Some 2) (Some 5) None) (fresh 5)))
       = [GetPage 1, GetPage 2,
          GetBundle [''c'', ''d'', ''e''], GetBundle [''c'', ''d'', ''e'']]
   \<and> content_jobs (snd (getitem (serve five 2) (SliceKey (Some 2) (Some 5) None) (fresh 5)))
       = [SegmentContents [''c'', ''d'', ''e''], SegmentContents [''c'', ''d'', ''e'']]"
  by code_simp

text \<open>
  C2. The claim: a slice over k indices returns k elements in index order, whatever the
  order of the remote answers. The code at \<open>ds[2:5]\<close> with page size 2 returns six
  elements, c, d, e once for each of the two segments; and at \<open>ds[0:2]\<close>, when the
  service answers the bundle request in reverse order, it returns b before a.
\<close>

theorem getitem_slice_returns_each_segment_whole:
  "fst (getitem (serve five 2) (SliceKey (Some 2) (Some 5) None) (fresh 5))
     = Inr (Many [promised 0 (mk ''c''), promised 0 (mk ''d''), promised 0 (mk ''e''),
                  promised 1 (mk ''c''), promised 1 (mk ''d''), promised 1 (mk ''e'')])
   \<and> fst (getitem (serve_reversed five 2) (SliceKey (Some 0) (Some 2) None) (fresh 5))
     = Inr (Many [promised 0 (mk ''b''), promised 0 (mk ''a'')])"
  by code_simp

text \<open>
  C7. The claim: an omitted step is 1, a negative stop is read as \<open>length - stop\<close>, and an
  omitted stop is the length of the collection, so that \<open>ds[a:]\<close> succeeds. The code on
  five elements: \<open>ds[0:-1]\<close> takes the step 1 and the stop 5 - (-1) = 6; at \<open>ds[2:]\<close>
  line 170 sets \<open>stop\<close> to 5, line 171 compares \<open>key.stop\<close>, which is \<open>None\<close>, with 0, and
  the access ends in \<open>TypeError\<close> before any index is resolved.
\<close>

theorem getitem_omitted_stop_raises:
  "getitem (serve five 2) (SliceKey (Some 2) None None) (fresh 5) = (Inl TypeError, fresh 5)
   \<and> slice_indices (fresh 5) (Some 0) (Some (- 1)) None = Inr [0, 1, 2, 3, 4, 5]"
proof -
  have "getitem (serve five 2) (SliceKey (Some 2) None None) (fresh 5)
          = (Inl TypeError, fresh 5)"
    by (simp add: getitem_def short_key_to_slice_def is_slice_def slice_elements_def
        slice_indices_def py_len_def fresh_def)
  moreover have "slice_indices (fresh 5) (Some 0) (Some (- 1)) None = Inr [0, 1, 2, 3, 4, 5]"
    by code_simp
  ultimately show ?thesis by simp
qed

lemma segments_Nil: "segments [] n = []"
  by (simp add: segments.simps)

text \<open>
  C8. As amended: with a positive page size, \<open>ds[0:0]\<close> resolves no index, sends no
  request and raises the \<open>KeyError\<close> "slice(0, 0, None) not found", whatever the length
  of the collection. A zero stop is an empty range.
\<close>

theorem getitem_zero_stop_is_empty:
  assumes "0 < page_size ev"
  shows "getitem ev (SliceKey (Some 0) (Some 0) None) s
           = (Inl (NotFound (SliceKey (Some 0) (Some 0) None)), s)"
  using assms
  by (simp add: getitem_def short_key_to_slice_def is_slice_def py_str_def py_int_def slice_elements_def slice_indices_def
      py_range_def segments_Nil)

theorem getitem_zero_stop_is_empty_witness: "0 < page_size (serve ten 10) \<and> fst (getitem (serve ten 10) (SliceKey (Some 0) (Some 0) None) (fresh 10))
           = Inl (NotFound (SliceKey (Some 0) (Some 0) None))"
  using getitem_zero_stop_is_empty [of "serve ten 10" "fresh 10"]
  by (simp add: serve_def)

text \<open>
  The claim as stated fails: on ten elements \<open>ds[0:0]\<close> raises and \<open>ds[0:10]\<close> returns
  the ten elements.
\<close>

theorem getitem_zero_stop_counterexample:
  "fst (getitem (serve ten 10) (SliceKey (Some 0) (Some 0) None) (fresh 10))
     = Inl (NotFound (SliceKey (Some 0) (Some 0) None))
   \<and> fst (getitem (serve ten 10) (SliceKey (Some 0) (Some 10) None) (fresh 10))
     = Inr (Many (map (promised 0) ten))"
  by code_simp

section \<open>Access by identifier and short keys\<close>

text \<open>
  C6. For a string key of at least 8 characters the outcome of \<open>__getitem__\<close> is decided
  by the one element request: its answer gives the element, and any failure of it, of
  whatever kind, gives the \<open>KeyError\<close> that names the key. No other error leaves this
  path.
\<close>

theorem getitem_identifier_failure_is_not_found:
  assumes "8 \<le> length k"
  shows "fst (getitem ev (StrKey k) s) =
           (case remote_element ev k of
              Inl e \<Rightarrow> Inl (NotFound (StrKey k))
            | Inr m \<Rightarrow> Inr (One (promised (length (content_jobs s)) m)))"
  using assms
  by (simp add: getitem_def short_key_to_slice_def is_slice_def py_str_def py_int_def element_by_id_def from_dict_def
      promised_def Let_def split: sum.splits)

theorem getitem_identifier_failure_is_not_found_witness: "8 \<le> length ''abcdefgh''
  \<and> remote_element (serve five 2) ''abcdefgh'' = Inl (RemoteFailure ''404'')
  \<and> fst (getitem (serve five 2) (StrKey ''abcdefgh'') (fresh 5)) = Inl (NotFound (StrKey ''abcdefgh''))"
  using getitem_identifier_failure_is_not_found [of "''abcdefgh''" "serve five 2" "fresh 5"]
  by (simp add: serve_def five_def mk_def)

lemma get_key_no_get_element:
  "filter is_get_element (requests (snd (get_key ev i s))) = filter is_get_element (requests s)"
  by (simp add: get_key_def Let_def is_get_element_def split: option.splits sum.splits)

lemma get_keys_no_get_element:
  "filter is_get_element (requests (snd (get_keys ev is s))) = filter is_get_element (requests s)"
proof (induction "is" arbitrary: s)
  case Nil
  show ?case by simp
next
  case (Cons i rest)
  obtain r s1 where g: "get_key ev i s = (r, s1)" by (cases "get_key ev i s")
  have s1: "filter is_get_element (requests s1) = filter is_get_element (requests s)"
    using get_key_no_get_element [of ev i s] g by simp
  obtain r2 s2 where g2: "get_keys ev rest s1 = (r2, s2)" by (cases "get_keys ev rest s1")
  have s2: "filter is_get_element (requests s2) = filter is_get_element (requests s1)"
    using Cons.IH [of s1] g2 by simp
  show ?case using g g2 s1 s2 by (simp split: sum.splits)
qed

lemma request_segment_no_get_element:
  "filter is_get_element (requests (snd (request_segment ev ids s)))
     = filter is_get_element (requests s)"
  by (simp add: request_segment_def Let_def is_get_element_def split: sum.splits)

lemma submit_segment_jobs_no_get_element:
  "filter is_get_element (requests (snd (submit_segment_jobs ev ids segs s)))
     = filter is_get_element (requests s)"
proof (induction segs arbitrary: s)
  case Nil
  show ?case by simp
next
  case (Cons seg rest)
  obtain r s1 where g: "request_segment ev ids s = (r, s1)" by (cases "request_segment ev ids s")
  have s1: "filter is_get_element (requests s1) = filter is_get_element (requests s)"
    using request_segment_no_get_element [of ev ids s] g by simp
  obtain rs s2 where g2: "submit_segment_jobs ev ids rest s1 = (rs, s2)"
    by (cases "submit_segment_jobs ev ids rest s1")
  have s2: "filter is_get_element (requests s2) = filter is_get_element (requests s1)"
    using Cons.IH [of s1] g2 by simp
  show ?case using g g2 s1 s2 by simp
qed

lemma slice_elements_no_get_element:
  "filter is_get_element (requests (snd (slice_elements ev a b c s)))
     = filter is_get_element (requests s)"
proof (cases "slice_indices s a b c")
  case (Inl e)
  then show ?thesis by (simp add: slice_elements_def)
next
  case indices: (Inr indices)
  obtain r s1 where g: "get_keys ev indices s = (r, s1)" by (cases "get_keys ev indices s")
  have s1: "filter is_get_element (requests s1) = filter is_get_element (requests s)"
    using get_keys_no_get_element [of ev indices s] g by simp
  show ?thesis
  proof (cases r)
    case (Inl e)
    then show ?thesis using indices g s1 by (simp add: slice_elements_def)
  next
    case ids: (Inr ids)
    obtain fs s2 where g2: "submit_segment_jobs ev ids (segments ids (page_size ev)) s1 = (fs, s2)"
      by (cases "submit_segment_jobs ev ids (segments ids (page_size ev)) s1")
    have s2: "filter is_get_element (requests s2) = filter is_get_element (requests s1)"
      using submit_segment_jobs_no_get_element [of ev ids "segments ids (page_size ev)" s1] g2
      by simp
    show ?thesis using indices ids g g2 s1 s2 by (simp add: slice_elements_def)
  qed
qed

lemma digit_char: "d < 10 \<Longrightarrow> is_digit (char_of (48 + d)) \<and> (of_char (char_of (48 + d) :: char) :: nat) = 48 + d"
  by (simp add: is_digit_def)

lemma digits_of_all_digits: "list_all is_digit (digits_of n) \<and> digits_of n \<noteq> []"
proof (induction n rule: digits_of.induct)
  case (1 n)
  show ?case
  proof (cases "n < 10")
    case True
    then show ?thesis using digit_char [of n] by (simp add: digits_of.simps [of n])
  next
    case False
    have "n mod 10 < 10" by simp
    then show ?thesis
      using False "1.IH" digit_char [of "n mod 10"] by (simp add: digits_of.simps [of n])
  qed
qed

lemma parse_digits_all_digits:
  "list_all is_digit xs \<Longrightarrow> xs \<noteq> [] \<Longrightarrow>
     parse_digits xs acc b = Some (foldl (\<lambda>a c. a * 10 + (of_char c - 48)) acc xs)"
proof (induction xs arbitrary: acc b)
  case Nil
  then show ?case by simp
next
  case (Cons c cs)
  show ?case
  proof (cases "cs = []")
    case True
    then show ?thesis using Cons.prems by simp
  next
    case False
    then show ?thesis using Cons.prems Cons.IH [OF _ False] by simp
  qed
qed

lemma digits_of_value: "foldl (\<lambda>a c. a * 10 + (of_char c - 48)) 0 (digits_of n) = n"
proof (induction n rule: digits_of.induct)
  case (1 n)
  show ?case
  proof (cases "n < 10")
    case True
    then show ?thesis using digit_char [of n] by (simp add: digits_of.simps [of n])
  next
    case False
    have "n mod 10 < 10" by simp
    then show ?thesis
      using False "1.IH" digit_char [of "n mod 10"] by (simp add: digits_of.simps [of n])
  qed
qed

lemma parse_digits_of: "parse_digits (digits_of n) 0 False = Some n"
  using parse_digits_all_digits [of "digits_of n" 0 False] digits_of_all_digits [of n]
  by (simp add: digits_of_value)

lemma digit_not_space: "is_digit c \<Longrightarrow> \<not> is_space c"
  by (auto simp: is_digit_def is_space_def)

lemma ends_not_space:
  assumes "list_all is_digit ds" and "ds \<noteq> []"
  shows "\<not> is_space (hd ds) \<and> \<not> is_space (last ds)"
proof -
  have "is_digit (hd ds)" using assms by (cases ds) simp_all
  moreover have "is_digit (last ds)"
    using assms by (simp add: list_all_iff)
  ultimately show ?thesis using digit_not_space by blast
qed

lemma strip_unchanged:
  assumes "s \<noteq> []" and "\<not> is_space (hd s)" and "\<not> is_space (last s)"
  shows "strip s = s"
proof -
  have "dropWhile is_space s = s" using assms by (cases s) simp_all
  moreover have "dropWhile is_space (rev s) = rev s"
    using assms by (cases "rev s") (simp_all add: hd_rev)
  ultimately show ?thesis by (simp add: strip_def)
qed

lemma int_of_str_str_int: "int_of_str (str_int k) = Some k"
proof -
  let ?n = "nat (if k < 0 then - k else k)"
  let ?ds = "digits_of ?n"
  have digits: "list_all is_digit ?ds" "?ds \<noteq> []"
    using digits_of_all_digits [of ?n] by simp_all
  have ends: "\<not> is_space (hd ?ds)" "\<not> is_space (last ?ds)"
    using ends_not_space [OF digits] by simp_all
  obtain c cs where ds: "?ds = c # cs" using digits(2) by (cases ?ds) auto
  have c: "is_digit c" using digits(1) ds by simp
  have signs: "c \<noteq> CHR ''-''" "c \<noteq> CHR ''+''" using c by (auto simp: is_digit_def)
  show ?thesis
  proof (cases "k < 0")
    case True
    have "\<not> is_space (CHR ''-'')" by (simp add: is_space_def)
    then have "strip (CHR ''-'' # ?ds) = CHR ''-'' # ?ds"
      using ends digits(2) strip_unchanged [of "CHR ''-'' # ?ds"] by simp
    then show ?thesis
      using True parse_digits_of [of ?n] by (simp add: int_of_str_def str_int_def)
  next
    case False
    have "strip ?ds = ?ds" using ends digits(2) strip_unchanged [of ?ds] by simp
    then show ?thesis
      using False parse_digits_of [of ?n] ds signs
      by (simp add: int_of_str_def str_int_def)
  qed
qed

text \<open>
  C10. As amended: a key that is not a slice and whose \<open>str\<close> has fewer than 8 characters
  is always converted with \<open>int\<close> and taken as an index, and in no case is an element
  request sent for it, so that a raw identifier of fewer than 8 characters can never be
  fetched by identifier. What the access raises is what \<open>int\<close> raises: for a string that
  is not a decimal integer literal, \<open>"abc"\<close> for one, it is \<open>ValueError\<close>, with nothing
  changed. A key that \<open>int\<close> accepts goes on as the index \<open>int\<close> returns; every integer
  does, being its own \<open>int\<close> with a \<open>str\<close> that is a literal.
\<close>

theorem getitem_short_key_is_an_index:
  assumes "\<not> is_slice key" and "length (py_str key) < 8"
  shows "getitem ev key s =
           (case py_int key of
              Inl e \<Rightarrow> (Inl e, s)
            | Inr k \<Rightarrow> getitem ev (SliceKey (Some k) (Some (k + 1)) (Some 1)) s)
       \<and> (key = StrKey t \<longrightarrow> int_of_str t = None \<longrightarrow> getitem ev key s = (Inl ValueError, s))
       \<and> (key = IntKey n \<longrightarrow> int_of_str (py_str key) = Some n \<and> py_int key = Inr n)
       \<and> filter is_get_element (requests (snd (getitem ev key s)))
           = filter is_get_element (requests s)"
proof -
  have conv: "getitem ev key s =
           (case py_int key of
              Inl e \<Rightarrow> (Inl e, s)
            | Inr k \<Rightarrow> getitem ev (SliceKey (Some k) (Some (k + 1)) (Some 1)) s)"
    using assms
    by (simp add: getitem_def short_key_to_slice_def is_slice_def split: sum.splits)
  have str: "getitem ev key s = (Inl ValueError, s)" if "key = StrKey t" "int_of_str t = None"
    using conv that by (simp add: py_int_def)
  have int: "int_of_str (py_str key) = Some n \<and> py_int key = Inr n" if "key = IntKey n"
    using that int_of_str_str_int [of n] by (simp add: py_str_def py_int_def)
  have reqs: "filter is_get_element (requests (snd (getitem ev key s)))
                = filter is_get_element (requests s)"
  proof (cases "py_int key")
    case (Inl e)
    then show ?thesis using conv by simp
  next
    case (Inr k)
    obtain r s1 where g: "slice_elements ev (Some k) (Some (k + 1)) (Some 1) s = (r, s1)"
      by (cases "slice_elements ev (Some k) (Some (k + 1)) (Some 1) s")
    have "filter is_get_element (requests s1) = filter is_get_element (requests s)"
      using slice_elements_no_get_element [of ev "Some k" "Some (k + 1)" "Some 1" s] g by simp
    then show ?thesis
      using conv Inr g
      by (simp add: getitem_def short_key_to_slice_def is_slice_def split: sum.splits)
  qed
  show ?thesis using conv str int reqs by blast
qed

theorem getitem_short_key_is_an_index_witness:
  "\<not> is_slice (StrKey ''abc'') \<and> length (py_str (StrKey ''abc'')) < 8
   \<and> int_of_str ''abc'' = None
   \<and> getitem (serve five 2) (StrKey ''abc'') (fresh 5) = (Inl ValueError, fresh 5)
   \<and> \<not> is_slice (StrKey [CHR 0x1C, CHR ''2''])
   \<and> length (py_str (StrKey [CHR 0x1C, CHR ''2''])) < 8
   \<and> int_of_str [CHR 0x1C, CHR ''2''] = None
   \<and> getitem (serve five 2) (StrKey [CHR 0x1C, CHR ''2'']) (fresh 5)
       = (Inl ValueError, fresh 5)
   \<and> \<not> is_slice (IntKey 3) \<and> length (py_str (IntKey 3)) < 8
   \<and> int_of_str (py_str (IntKey 3)) = Some 3
   \<and> fst (getitem (serve five 2) (IntKey 3) (fresh 5)) = Inr (One (promised 0 (mk ''d'')))"
proof -
  have a: "\<not> is_slice (StrKey ''abc'')" "\<not> is_slice (IntKey 3)"
    "\<not> is_slice (StrKey [CHR 0x1C, CHR ''2''])"
    by (simp_all add: is_slice_def)
  have b: "length (py_str (StrKey ''abc'')) < 8" by (simp add: py_str_def)
  have b': "length (py_str (StrKey [CHR 0x1C, CHR ''2''])) < 8" by (simp add: py_str_def)
  have c: "length (py_str (IntKey 3)) < 8" by code_simp
  have d: "int_of_str ''abc'' = None" "int_of_str [CHR 0x1C, CHR ''2''] = None"
    by code_simp+
  have e: "fst (getitem (serve five 2) (SliceKey (Some 3) (Some (3 + 1)) (Some 1)) (fresh 5))
             = Inr (One (promised 0 (mk ''d'')))" by code_simp
  show ?thesis
    using a b b' c d e
      getitem_short_key_is_an_index [OF a(1) b, of "serve five 2" "fresh 5" "''abc''" 0]
      getitem_short_key_is_an_index
        [OF a(3) b', of "serve five 2" "fresh 5" "[CHR 0x1C, CHR ''2'']" 0]
      getitem_short_key_is_an_index [OF a(2) c, of "serve five 2" "fresh 5" "''x''" 3]
    by (simp add: py_int_def)
qed

text \<open>
  The claim as stated fails on keys that are neither strings nor integers: \<open>None\<close> and
  \<open>True\<close> have a \<open>str\<close> of four characters that is no decimal integer literal, and the
  access with \<open>None\<close> raises \<open>TypeError\<close>, while the access with \<open>True\<close> raises nothing and
  returns the element at index 1.
\<close>

theorem getitem_short_key_counterexample:
  "\<not> is_slice NoneKey \<and> length (py_str NoneKey) < 8 \<and> int_of_str (py_str NoneKey) = None
   \<and> getitem (serve five 2) NoneKey (fresh 5) = (Inl TypeError, fresh 5)
   \<and> \<not> is_slice (BoolKey True) \<and> length (py_str (BoolKey True)) < 8
   \<and> int_of_str (py_str (BoolKey True)) = None
   \<and> fst (getitem (serve five 2) (BoolKey True) (fresh 5)) = Inr (One (promised 0 (mk ''b'')))"
proof -
  have "getitem (serve five 2) NoneKey (fresh 5) = (Inl TypeError, fresh 5)"
    by (simp add: getitem_def short_key_to_slice_def is_slice_def py_str_def py_int_def)
  moreover have "\<not> is_slice NoneKey \<and> length (py_str NoneKey) < 8
      \<and> int_of_str (py_str NoneKey) = None
      \<and> \<not> is_slice (BoolKey True) \<and> length (py_str (BoolKey True)) < 8
      \<and> int_of_str (py_str (BoolKey True)) = None
      \<and> fst (getitem (serve five 2) (BoolKey True) (fresh 5))
          = Inr (One (promised 0 (mk ''b'')))"
    by code_simp
  ultimately show ?thesis by simp
qed

section \<open>Mutation and the page cache\<close>

lemma refresh_keeps_cache:
  "page_cache (snd (refresh ev s)) = page_cache s
   \<and> last_cache_time (snd (refresh ev s)) = last_cache_time s
   \<and> clock_reads (snd (refresh ev s)) = clock_reads s"
  by (simp add: refresh_def Let_def split: sum.splits)

lemma delitem_keeps_cache:
  "page_cache (snd (delitem ev k s)) = page_cache s
   \<and> last_cache_time (snd (delitem ev k s)) = last_cache_time s
   \<and> clock_reads (snd (delitem ev k s)) = clock_reads s"
  using refresh_keeps_cache [of ev "s\<lparr>requests := requests s @ [DeleteElement k]\<rparr>"]
  by (simp add: delitem_def Let_def split: sum.splits)

lemma getitem_by_id_keeps_cache:
  assumes "8 \<le> length k"
  shows "page_cache (snd (getitem ev (StrKey k) s)) = page_cache s
   \<and> last_cache_time (snd (getitem ev (StrKey k) s)) = last_cache_time s
   \<and> clock_reads (snd (getitem ev (StrKey k) s)) = clock_reads s"
  using assms
  by (simp add: getitem_def short_key_to_slice_def is_slice_def py_str_def py_int_def element_by_id_def Let_def split: sum.splits)

lemma add_element_keeps_cache:
  assumes "\<And>result. remote_post ev ttl descr tgs ref = Inr result \<Longrightarrow> 8 \<le> length result"
  shows "page_cache (snd (add_element ev ttl descr tgs ref c flag s)) = page_cache s
   \<and> last_cache_time (snd (add_element ev ttl descr tgs ref c flag s)) = last_cache_time s
   \<and> clock_reads (snd (add_element ev ttl descr tgs ref c flag s)) = clock_reads s"
proof (cases "remote_post ev ttl descr tgs ref")
  case (Inl e)
  then show ?thesis
    by (simp add: add_element_def Let_def split: sum.splits content.splits option.splits)
next
  case posted: (Inr result)
  let ?s1 = "s\<lparr>requests := requests s @ [PostElement ttl]\<rparr>"
  obtain r2 s2 where rf: "refresh ev ?s1 = (r2, s2)" by (cases "refresh ev ?s1")
  have k2: "page_cache s2 = page_cache s \<and> last_cache_time s2 = last_cache_time s
            \<and> clock_reads s2 = clock_reads s"
    using refresh_keeps_cache [of ev ?s1] rf by simp
  obtain r3 s3 where gi: "getitem ev (StrKey result) s2 = (r3, s3)"
    by (cases "getitem ev (StrKey result) s2")
  have k3: "page_cache s3 = page_cache s \<and> last_cache_time s3 = last_cache_time s
            \<and> clock_reads s3 = clock_reads s"
    using getitem_by_id_keeps_cache [OF assms [OF posted], of ev s2] gi k2 by simp
  show ?thesis
    using posted rf gi k2 k3
    by (simp add: add_element_def Let_def
        split: sum.splits content.splits option.splits result.splits)
qed

lemma get_key_answers_from_cache:
  assumes "page_size ev \<noteq> 0"
    and "page_cache s (i div page_size ev) = Some page"
    and "now_at ev (clock_reads s) - last_cache_time s \<le> CACHE_TIME ev"
  shows "fst (get_key ev i s) = (case py_index page (i mod page_size ev) of
                                  Inl e \<Rightarrow> Inl e | Inr m \<Rightarrow> Inr (m_id m))
       \<and> requests (snd (get_key ev i s)) = requests s"
  using assms by (simp add: get_key_def Let_def split: sum.splits)

text \<open>
  C9. As amended: neither \<open>refresh\<close> nor \<open>__delitem__\<close> (the delete request, then
  \<open>refresh\<close>) nor \<open>add_element\<close> with a new identifier of at least 8 characters (the
  post, \<open>refresh\<close>, the fetch by identifier, \<open>set_content\<close>) touches the page cache or its
  time stamp: \<open>refresh\<close> replaces the counts and the dataset fields only. So a resolve
  that follows the mutation within \<open>CACHE_TIME\<close> of the last cache write and finds its
  page in the cache answers from that page, which was cached before the mutation, and
  sends no request. Only the expiry of \<open>CACHE_TIME\<close> empties the cache.
\<close>

theorem mutation_keeps_page_cache:
  assumes "page_size ev' \<noteq> 0"
    and "page_cache s (i div page_size ev') = Some page"
    and "now_at ev' (clock_reads s) - last_cache_time s \<le> CACHE_TIME ev'"
    and "\<And>result. remote_post ev ttl descr tgs ref = Inr result \<Longrightarrow> 8 \<le> length result"
    and "s' = snd (delitem ev k s) \<or> s' = snd (add_element ev ttl descr tgs ref c flag s)
         \<or> s' = snd (refresh ev s)"
  shows "page_cache s' = page_cache s
       \<and> last_cache_time s' = last_cache_time s
       \<and> fst (get_key ev' i s')
           = (case py_index page (i mod page_size ev') of
                Inl e \<Rightarrow> Inl e | Inr m \<Rightarrow> Inr (m_id m))
       \<and> requests (snd (get_key ev' i s')) = requests s'"
proof -
  have keep: "page_cache s' = page_cache s \<and> last_cache_time s' = last_cache_time s
              \<and> clock_reads s' = clock_reads s"
    using assms(5) delitem_keeps_cache [of ev k s] refresh_keeps_cache [of ev s]
      add_element_keeps_cache [of ev ttl descr tgs ref c flag s, OF assms(4)]
    by auto
  show ?thesis
    using keep get_key_answers_from_cache [where ev = ev' and i = i and s = s' and page = page]
      assms(1-3) by simp
qed

theorem mutation_keeps_page_cache_witness:
  "page_size (serve [mk ''b'', mk ''c'', mk ''d'', mk ''e''] 2) \<noteq> 0
   \<and> page_cache (with_cache 5 [0 \<mapsto> [mk ''a'', mk ''b'']] 0) 0 = Some [mk ''a'', mk ''b'']
   \<and> fst (get_key (serve [mk ''b'', mk ''c'', mk ''d'', mk ''e''] 2) 0
         (snd (delitem (serve [mk ''b'', mk ''c'', mk ''d'', mk ''e''] 2) ''a''
            (with_cache 5 [0 \<mapsto> [mk ''a'', mk ''b'']] 0)))) = Inr ''a''
   \<and> fst (get_key (serve [mk ''b'', mk ''c'', mk ''d'', mk ''e''] 2) 0
         (snd (add_element (serve [mk ''b'', mk ''c'', mk ''d'', mk ''e''] 2)
                 ''abcdefgh'' ''d'' [] ''r'' (BytesContent []) True
            (with_cache 5 [0 \<mapsto> [mk ''a'', mk ''b'']] 0)))) = Inr ''a''"
proof -
  let ?ev = "serve [mk ''b'', mk ''c'', mk ''d'', mk ''e''] 2"
  let ?s = "with_cache 5 [0 \<mapsto> [mk ''a'', mk ''b'']] 0"
  let ?d = "snd (delitem ?ev ''a'' ?s)"
  let ?a = "snd (add_element ?ev ''abcdefgh'' ''d'' [] ''r'' (BytesContent []) True ?s)"
  have h1: "page_size ?ev \<noteq> 0" by (simp add: serve_def)
  have h2: "page_cache ?s (0 div page_size ?ev) = Some [mk ''a'', mk ''b'']"
    by (simp add: with_cache_def fresh_def)
  have h3: "now_at ?ev (clock_reads ?s) - last_cache_time ?s \<le> CACHE_TIME ?ev"
    by (simp add: serve_def with_cache_def fresh_def)
  have h4: "\<And>result. remote_post ?ev ''abcdefgh'' ''d'' [] ''r'' = Inr result
              \<Longrightarrow> 8 \<le> length result"
    by (auto simp: serve_def)
  have h5: "?d = ?d \<or> ?d = ?a \<or> ?d = snd (refresh ?ev ?s)" by simp
  have h6: "?a = snd (delitem ?ev ''a'' ?s) \<or> ?a = ?a \<or> ?a = snd (refresh ?ev ?s)" by simp
  show ?thesis
    using h1 h2 mutation_keeps_page_cache [OF h1 h2 h3 h4 h5]
      mutation_keeps_page_cache [OF h1 h2 h3 h4 h6]
    by (simp add: py_index_def mk_def)
qed

text \<open>
  The claim as stated fails: page 0 is cached as [a, b], the element a is deleted, the
  service now has [b, c] as page 0, and the next resolve of index 0 still answers a
  without any page request.
\<close>

theorem delitem_stale_page_counterexample: "page_cache (with_cache 5 [0 \<mapsto> [mk ''a'', mk ''b'']] 0) 0 = Some [mk ''a'', mk ''b'']
  \<and> fst (delitem (serve [mk ''b'', mk ''c'', mk ''d'', mk ''e''] 2) ''a''
           (with_cache 5 [0 \<mapsto> [mk ''a'', mk ''b'']] 0)) = Inr ()
  \<and> remote_page (serve [mk ''b'', mk ''c'', mk ''d'', mk ''e''] 2) 0 = Inr [mk ''b'', mk ''c'']
  \<and> fst (get_key (serve [mk ''b'', mk ''c'', mk ''d'', mk ''e''] 2) 0
        (snd (delitem (serve [mk ''b'', mk ''c'', mk ''d'', mk ''e''] 2) ''a''
           (with_cache 5 [0 \<mapsto> [mk ''a'', mk ''b'']] 0)))) = Inr ''a''
  \<and> requests (snd (get_key (serve [mk ''b'', mk ''c'', mk ''d'', mk ''e''] 2) 0
        (snd (delitem (serve [mk ''b'', mk ''c'', mk ''d'', mk ''e''] 2) ''a''
           (with_cache 5 [0 \<mapsto> [mk ''a'', mk ''b'']] 0))))) = [DeleteElement ''a'', GetDataset]"
  by (simp add: serve_def with_cache_def fresh_def mk_def delitem_def refresh_def get_key_def
      py_index_def Let_def)

section \<open>Iteration\<close>

lemma number_of_pages_ceiling:
  fixes n ps :: int
  assumes "0 < ps" and "0 \<le> n"
  shows "n div ps + (if 0 < n mod ps then 1 else 0) = (n + ps - 1) div ps"
proof -
  have split: "n + ps - 1 = (n mod ps + ps - 1) + (n div ps) * ps"
    by (simp add: algebra_simps)
  have r: "0 \<le> n mod ps" "n mod ps < ps" using assms by simp_all
  have "(n + ps - 1) div ps = (n mod ps + ps - 1) div ps + n div ps"
    using assms by (subst split) simp
  moreover have "(n mod ps + ps - 1) div ps = (if 0 < n mod ps then 1 else 0)"
  proof (cases "0 < n mod ps")
    case True
    have "(n mod ps + ps - 1) div ps = ((n mod ps - 1) + 1 * ps) div ps" by (simp add: algebra_simps)
    also have "\<dots> = (n mod ps - 1) div ps + 1"
      using assms div_add_self2 [of ps "n mod ps - 1"] by simp
    also have "\<dots> = 1" using True r by (simp add: div_pos_pos_trivial)
    finally show ?thesis using True by simp
  next
    case False
    then have "n mod ps = 0" using r by simp
    then show ?thesis using assms by (simp add: div_pos_pos_trivial)
  qed
  ultimately show ?thesis by simp
qed

lemma py_range_pages: "0 \<le> n \<Longrightarrow> py_range 0 n 1 = map int [0..<nat n]"
  by (simp add: py_range_def)

lemma get_elements_answered:
  "remote_page ev p = Inr ms \<Longrightarrow>
     get_elements ev p s = (Inr (map from_dict ms), s\<lparr>requests := requests s @ [GetPage p]\<rparr>)"
  by (simp add: get_elements_def)

lemma get_elements_state:
  "content_jobs (snd (get_elements ev p s)) = content_jobs s
   \<and> requests (snd (get_elements ev p s)) = requests s @ [GetPage p]"
  by (simp add: get_elements_def Let_def split: sum.splits)

lemma promised_from_dict:
  "content_promise_update (\<lambda>_. Some f) \<circ> from_dict = promised f"
  by (rule ext) (simp add: from_dict_def promised_def)

lemma get_id_from_dict: "get_id \<circ> from_dict = m_id"
  by (rule ext) (simp add: from_dict_def get_id_def)

lemma iter_pages_consecutive:
  assumes "\<And>p. p < length pgs \<Longrightarrow> remote_page ev (int p) = Inr (pgs ! p)"
    and "k < length pgs"
    and "buffer = None \<or> buffer = Some (Inr (map from_dict (pgs ! k)))"
    and "length (content_jobs s) = b + k"
  shows "fst (iter_pages ev (map int [k..<length pgs]) buffer s)
           = (concat (map (\<lambda>p. map (promised (b + p)) (pgs ! p)) [k..<length pgs]), None)
       \<and> content_jobs (snd (iter_pages ev (map int [k..<length pgs]) buffer s))
           = content_jobs s @ map (\<lambda>p. SegmentContents (map m_id (pgs ! p))) [k..<length pgs]
       \<and> requests (snd (iter_pages ev (map int [k..<length pgs]) buffer s))
           = requests s @ (if buffer = None then [GetPage (int k)] else [])
               @ map (\<lambda>p. GetPage (int p + 1)) [k..<length pgs]"
  using assms
proof (induction "length pgs - k" arbitrary: k buffer s)
  case 0
  then show ?case by simp
next
  case (Suc d)
  let ?N = "length pgs"
  have upt: "[k..<?N] = k # [Suc k..<?N]"
    using Suc.prems(2) by (simp add: upt_conv_Cons)
  obtain buf s1 where b1:
    "(case buffer of None \<Rightarrow> get_elements ev (int k) s | Some b \<Rightarrow> (b, s)) = (buf, s1)"
    by (cases "case buffer of None \<Rightarrow> get_elements ev (int k) s | Some b \<Rightarrow> (b, s)")
  have page_k: "remote_page ev (int k) = Inr (pgs ! k)"
    using Suc.prems(1) [of k] Suc.prems(2) by simp
  have buf: "buf = Inr (map from_dict (pgs ! k))"
    and s1c: "content_jobs s1 = content_jobs s"
    and s1r: "requests s1 = requests s @ (if buffer = None then [GetPage (int k)] else [])"
    using b1 Suc.prems(3) get_elements_answered [OF page_k, of s] by auto
  obtain buffer2 s2 where b2: "get_elements ev (int k + 1) s1 = (buffer2, s2)"
    by (cases "get_elements ev (int k + 1) s1")
  have s2c: "content_jobs s2 = content_jobs s1"
    and s2r: "requests s2 = requests s1 @ [GetPage (int k + 1)]"
    using get_elements_state [of ev "int k + 1" s1] b2 by simp_all
  define s3 where
    "s3 = s2\<lparr>content_jobs := content_jobs s2 @ [SegmentContents (map m_id (pgs ! k))]\<rparr>"
  have step: "iter_pages ev (map int [k..<?N]) buffer s =
      (case iter_pages ev (map int [Suc k..<?N]) (Some buffer2) s3 of
         ((later, err), s4) \<Rightarrow> ((map (promised (b + k)) (pgs ! k) @ later, err), s4))"
    using b1 b2 buf s1c s2c Suc.prems(4)
    by (simp add: upt s3_def Let_def promised_from_dict get_id_from_dict)
  show ?case
  proof (cases "Suc k < ?N")
    case False
    then have e: "[Suc k..<?N] = []" by simp
    have res: "iter_pages ev (map int [k..<?N]) buffer s
                 = ((map (promised (b + k)) (pgs ! k), None), s3)"
      using step e by simp
    show ?thesis
      apply (simp only: res)
      using s1c s1r s2c s2r by (simp add: upt e s3_def)
  next
    case True
    have page_k1: "remote_page ev (int (Suc k)) = Inr (pgs ! Suc k)"
      using Suc.prems(1) [of "Suc k"] True by simp
    have buffer2: "buffer2 = Inr (map from_dict (pgs ! Suc k))"
      using b2 get_elements_answered [OF page_k1, of s1] by (simp add: add.commute)
    have d: "d = ?N - Suc k" using Suc.hyps(2) by simp
    have len: "length (content_jobs s3) = b + Suc k"
      using s1c s2c Suc.prems(4) by (simp add: s3_def)
    have IH: "fst (iter_pages ev (map int [Suc k..<?N]) (Some buffer2) s3)
           = (concat (map (\<lambda>p. map (promised (b + p)) (pgs ! p)) [Suc k..<?N]), None)
       \<and> content_jobs (snd (iter_pages ev (map int [Suc k..<?N]) (Some buffer2) s3))
           = content_jobs s3 @ map (\<lambda>p. SegmentContents (map m_id (pgs ! p))) [Suc k..<?N]
       \<and> requests (snd (iter_pages ev (map int [Suc k..<?N]) (Some buffer2) s3))
           = requests s3 @ map (\<lambda>p. GetPage (int p + 1)) [Suc k..<?N]"
      using Suc.hyps(1) [OF d Suc.prems(1) True _ len, of "Some buffer2"] buffer2 by simp
    obtain later err s4 where r:
      "iter_pages ev (map int [Suc k..<?N]) (Some buffer2) s3 = ((later, err), s4)"
      by (cases "iter_pages ev (map int [Suc k..<?N]) (Some buffer2) s3") auto
    have res: "iter_pages ev (map int [k..<?N]) buffer s
                 = ((map (promised (b + k)) (pgs ! k) @ later, err), s4)"
      using step r by simp
    have s3c: "content_jobs s3 = content_jobs s @ [SegmentContents (map m_id (pgs ! k))]"
      and s3r: "requests s3 = requests s @ (if buffer = None then [GetPage (int k)] else [])
                                @ [GetPage (int k + 1)]"
      using s1c s1r s2c s2r by (simp_all add: s3_def)
    show ?thesis
      apply (simp only: res)
      using IH r s3c s3r by (simp add: upt)
  qed
qed


lemma concat_pages_meta:
  "map e_meta (concat (map (\<lambda>p. map (promised (b + p)) (pgs ! p)) [0..<length pgs]))
     = concat pgs"
proof -
  have "map e_meta (concat (map (\<lambda>p. map (promised (b + p)) (pgs ! p)) [0..<length pgs]))
          = concat (map (\<lambda>p. pgs ! p) [0..<length pgs])"
    by (simp add: map_concat comp_def promised_def)
  then show ?thesis by (simp add: map_nth)
qed

text \<open>
  C5. As amended: let the page size be positive, \<open>elements_count\<close> be n, and the service
  answer the page requests 0 to \<open>ceil(n / ps) - 1\<close> with pages that hold n elements in
  all. Then the iteration ends without error and yields exactly these n elements, page
  after page in increasing page order; all elements of a page hold the same content job,
  which was submitted for exactly the identifiers of that page, one job per page. The
  page requests submitted are those for the pages 0 to \<open>ceil(n / ps)\<close>, in this order:
  the request for page p + 1 is submitted in every round, so one page past the last is
  requested, and its answer is never read. An empty collection sends no request.
\<close>

theorem iter_reads_pages_in_order:
  assumes "0 < page_size ev"
    and "0 \<le> elements_count s"
    and "int (length pgs) = (elements_count s + page_size ev - 1) div page_size ev"
    and "map (\<lambda>p. remote_page ev (int p)) [0..<length pgs] = map Inr pgs"
    and "int (length (concat pgs)) = elements_count s"
  shows "fst (iter ev s)
           = (concat (map (\<lambda>p. map (promised (length (content_jobs s) + p)) (pgs ! p))
                        [0..<length pgs]), None)
       \<and> map e_meta (fst (fst (iter ev s))) = concat pgs
       \<and> int (length (fst (fst (iter ev s)))) = elements_count s
       \<and> content_jobs (snd (iter ev s))
           = content_jobs s @ map (\<lambda>page. SegmentContents (map m_id page)) pgs
       \<and> requests (snd (iter ev s))
           = requests s @ (if pgs = [] then []
                           else map (\<lambda>p. GetPage (int p)) [0..<Suc (length pgs)])"
proof -
  let ?N = "length pgs"
  let ?ps = "page_size ev"
  let ?n = "elements_count s"
  have pages: "?n div ?ps + (if 0 < ?n mod ?ps then 1 else 0) = int ?N"
    using number_of_pages_ceiling [OF assms(1) assms(2)] assms(3) by simp
  have run: "iter ev s = iter_pages ev (map int [0..<?N]) None s"
    using assms(1) assms(2) pages
    by (simp add: iter_def py_len_def Let_def py_range_pages del: iter_pages.simps)
  have answered: "remote_page ev (int p) = Inr (pgs ! p)" if "p < ?N" for p
  proof -
    have "map (\<lambda>p. remote_page ev (int p)) [0..<?N] ! p = map Inr pgs ! p"
      using assms(4) by simp
    then show ?thesis using that by simp
  qed
  have jobs: "map (\<lambda>p. SegmentContents (map m_id (pgs ! p))) [0..<?N]
                = map (\<lambda>page. SegmentContents (map m_id page)) pgs"
    using map_nth [of pgs] map_map [of "\<lambda>page. SegmentContents (map m_id page)" "(!) pgs" "[0..<?N]"]
    by (simp add: comp_def)
  show ?thesis
  proof (cases "pgs = []")
    case True
    then show ?thesis using run assms(5) by simp
  next
    case False
    then have k: "0 < ?N" by simp
    have main: "fst (iter ev s)
           = (concat (map (\<lambda>p. map (promised (length (content_jobs s) + p)) (pgs ! p))
                        [0..<?N]), None)
       \<and> content_jobs (snd (iter ev s))
           = content_jobs s @ map (\<lambda>p. SegmentContents (map m_id (pgs ! p))) [0..<?N]
       \<and> requests (snd (iter ev s))
           = requests s @ [GetPage 0] @ map (\<lambda>p. GetPage (int p + 1)) [0..<?N]"
      using iter_pages_consecutive [of pgs ev 0 None s "length (content_jobs s)", OF answered k]
      by (simp add: run)
    have reqs: "[GetPage 0] @ map (\<lambda>p. GetPage (int p + 1)) [0..<?N]
                  = map (\<lambda>p. GetPage (int p)) [0..<Suc ?N]"
      by (simp add: map_upt_Suc add.commute del: upt_Suc)
    have metas: "map e_meta (fst (fst (iter ev s))) = concat pgs"
      using main concat_pages_meta [of "length (content_jobs s)" pgs] by simp
    have count: "int (length (fst (fst (iter ev s)))) = ?n"
      using metas assms(5) length_map [of e_meta "fst (fst (iter ev s))"] by simp
    show ?thesis using main metas count jobs reqs False by simp
  qed
qed

theorem iter_reads_pages_in_order_witness:
  "0 < page_size (serve five 2) \<and> 0 \<le> elements_count (fresh 5)
   \<and> map get_id (fst (fst (iter (serve five 2) (fresh 5)))) = [''a'', ''b'', ''c'', ''d'', ''e'']
   \<and> content_jobs (snd (iter (serve five 2) (fresh 5)))
       = [SegmentContents [''a'', ''b''], SegmentContents [''c'', ''d''], SegmentContents [''e'']]
   \<and> requests (snd (iter (serve five 2) (fresh 5)))
       = [GetPage 0, GetPage 1, GetPage 2, GetPage 3]"
proof -
  let ?pgs = "[[mk ''a'', mk ''b''], [mk ''c'', mk ''d''], [mk ''e'']]"
  have h1: "0 < page_size (serve five 2)" by (simp add: serve_def)
  have h2: "0 \<le> elements_count (fresh 5)" by (simp add: fresh_def)
  have h3: "int (length ?pgs)
              = (elements_count (fresh 5) + page_size (serve five 2) - 1) div page_size (serve five 2)"
    by (simp add: serve_def fresh_def)
  have h4: "map (\<lambda>p. remote_page (serve five 2) (int p)) [0..<length ?pgs] = map Inr ?pgs"
    by code_simp
  have h5: "int (length (concat ?pgs)) = elements_count (fresh 5)" by (simp add: fresh_def)
  show ?thesis
    using h1 h2 iter_reads_pages_in_order [OF h1 h2 h3 h4 h5]
    by (simp add: fresh_def promised_def get_id_def mk_def upt_conv_Cons)
qed

text \<open>
  The claim as stated fails: for five elements and page size 2 the last page is page 2,
  and the requests are those for the pages 0, 1, 2 and 3.
\<close>

theorem iter_requests_page_past_end_counterexample: "requests (snd (iter (serve five 2) (fresh 5)))
     = [GetPage 0, GetPage 1, GetPage 2, GetPage 3]
   \<and> ((5::int) + 2 - 1) div 2 - 1 = 2"
  by code_simp

end
